theory Spec2Isabelle
  imports Main "HOL-Library.List_Lexorder"
begin

section \<open>Python strings\<close>

text \<open>
  A Python \<open>str\<close> is a sequence of Unicode code points, so it is modelled as a list of
  natural numbers. Python compares strings lexicographically by code point, which is the
  order that \<open>List_Lexorder\<close> puts on \<open>nat list\<close>. ASCII literals of the source are
  written \<open>u ''...''\<close>; the few non-ASCII characters of the messages are given by their
  code point.
\<close>

type_synonym pystr = "nat list"

definition u :: "string \<Rightarrow> pystr" where
  "u s = map of_char s"

section \<open>The fragment of Python's \<open>re\<close> used by the rule tables\<close>

text \<open>
  Every pattern of \<open>RED_FLAGS\<close> and \<open>SUGGESTION_RULES\<close> is built from literal ASCII
  characters, groups \<open>( )\<close>, alternation \<open>|\<close> and the word boundary \<open>\b\<close>.
\<close>

datatype regex = Eps | Lit nat | WordB | Cat regex regex | Alt regex regex

type_synonym frame = "regex option \<times> regex"

fun close_frame :: "frame \<Rightarrow> regex" where
  "close_frame (None, cur) = cur"
| "close_frame (Some a, cur) = Alt a cur"

definition unsupported :: "nat \<Rightarrow> bool" where
  \<comment> \<open>\<open>. ^ $ * + ? { } [ ]\<close> and every non-ASCII character\<close>
  "unsupported c \<longleftrightarrow> c \<in> set [46, 94, 36, 42, 43, 63, 123, 125, 91, 93] \<or> 128 \<le> c"

text \<open>
  The parser reads the pattern from left to right. The frame holds the alternatives
  finished so far and the branch being read; the stack holds the frames of the groups
  that are still open. \<open>None\<close> is returned for unbalanced parentheses (where Python
  raises \<open>re.error\<close>) and for any construct outside the fragment.
\<close>

fun parse_re :: "pystr \<Rightarrow> frame \<Rightarrow> frame list \<Rightarrow> regex option" where
  "parse_re [] fr [] = Some (close_frame fr)"
| "parse_re [] fr (g # gs) = None"
| "parse_re (c # cs) (alts, cur) stack =
     (if c = 40 then parse_re cs (None, Eps) ((alts, cur) # stack)
      else if c = 41 then
        (case stack of
           [] \<Rightarrow> None
         | (alts', cur') # gs \<Rightarrow> parse_re cs (alts', Cat cur' (close_frame (alts, cur))) gs)
      else if c = 124 then parse_re cs (Some (close_frame (alts, cur)), Eps) stack
      else if c = 92 then
        (case cs of
           [] \<Rightarrow> None
         | d # ds \<Rightarrow> if d = 98 then parse_re ds (alts, Cat cur WordB) stack else None)
      else if unsupported c then None
      else parse_re cs (alts, Cat cur (Lit c)) stack)"

subsection \<open>Character classes and case-insensitive literals\<close>

definition ascii_upper_letter :: "nat \<Rightarrow> bool" where
  "ascii_upper_letter c \<longleftrightarrow> 65 \<le> c \<and> c \<le> 90"

definition ascii_lower_letter :: "nat \<Rightarrow> bool" where
  "ascii_lower_letter c \<longleftrightarrow> 97 \<le> c \<and> c \<le> 122"

definition ascii_digit :: "nat \<Rightarrow> bool" where
  "ascii_digit c \<longleftrightarrow> 48 \<le> c \<and> c \<le> 57"

text \<open>
  \<open>\b\<close> of a \<open>str\<close> pattern uses the Unicode notion of a word character: an
  alphanumeric code point or the underscore. For ASCII this is written out; the
  alphanumeric table of the non-ASCII code points is the parameter \<open>ua\<close> of the model,
  and every theorem holds for every such table.
\<close>

definition is_word :: "(nat \<Rightarrow> bool) \<Rightarrow> nat \<Rightarrow> bool" where
  "is_word ua c \<longleftrightarrow>
     (if c < 128 then ascii_upper_letter c \<or> ascii_lower_letter c \<or> ascii_digit c \<or> c = 95
      else ua c)"

text \<open>
  With \<open>re.IGNORECASE\<close> a cased literal \<open>p\<close> of the pattern is compiled to its lower case
  \<open>lo\<close> and matches the character \<open>c\<close> when the simple lower case of \<open>c\<close> is \<open>lo\<close> or one
  of the code points that \<open>sre_compile\<close> lists as equivalent to \<open>lo\<close>. Only the
  code points whose lower case can meet an ASCII literal matter here: the ASCII capitals,
  U+0130 (lower case \<open>i\<close>) and U+212A (lower case \<open>k\<close>); \<open>sre_lower\<close> leaves every
  other code point alone, and so do the comparisons below. The equivalents of an ASCII
  letter are U+0131 for \<open>i\<close> and U+017F for \<open>s\<close>.
\<close>

definition sre_lower :: "nat \<Rightarrow> nat" where
  "sre_lower c =
     (if ascii_upper_letter c then c + 32
      else if c = 0x130 then 0x69
      else if c = 0x212A then 0x6B
      else c)"

definition ignorecase_fixes :: "nat \<Rightarrow> nat list" where
  "ignorecase_fixes lo = (if lo = 0x69 then [0x131] else if lo = 0x73 then [0x17F] else [])"

definition lit_match :: "nat \<Rightarrow> nat \<Rightarrow> bool" where
  "lit_match p c \<longleftrightarrow>
     (if ascii_upper_letter p \<or> ascii_lower_letter p
      then sre_lower c \<in> set (sre_lower p # ignorecase_fixes (sre_lower p))
      else c = p)"

subsection \<open>Matching\<close>

text \<open>
  A position in the text is the character before it (if any) and the text from it on.
  \<open>run\<close> lists the positions at which a match of the expression that starts at the
  given position can end, in the order in which backtracking tries them.
\<close>

type_synonym pos = "nat option \<times> pystr"

definition at_boundary :: "(nat \<Rightarrow> bool) \<Rightarrow> pos \<Rightarrow> bool" where
  "at_boundary ua s \<longleftrightarrow>
     (case fst s of None \<Rightarrow> False | Some b \<Rightarrow> is_word ua b)
       \<noteq> (case snd s of [] \<Rightarrow> False | c # cs \<Rightarrow> is_word ua c)"

fun run :: "(nat \<Rightarrow> bool) \<Rightarrow> regex \<Rightarrow> pos \<Rightarrow> pos list" where
  "run ua Eps s = [s]"
| "run ua (Lit p) (b, []) = []"
| "run ua (Lit p) (b, c # cs) = (if lit_match p c then [(Some c, cs)] else [])"
| "run ua WordB s = (if at_boundary ua s then [s] else [])"
| "run ua (Cat r1 r2) s = concat (map (run ua r2) (run ua r1 s))"
| "run ua (Alt r1 r2) s = run ua r1 s @ run ua r2 s"

text \<open>\<open>re.search\<close> tries every start position, from the first to the end of the text.\<close>

fun search_from :: "(nat \<Rightarrow> bool) \<Rightarrow> regex \<Rightarrow> nat option \<Rightarrow> pystr \<Rightarrow> bool" where
  "search_from ua r b [] \<longleftrightarrow> run ua r (b, []) \<noteq> []"
| "search_from ua r b (c # cs) \<longleftrightarrow> run ua r (b, c # cs) \<noteq> [] \<or> search_from ua r (Some c) cs"

datatype error = Pattern_error

definition re_search :: "(nat \<Rightarrow> bool) \<Rightarrow> pystr \<Rightarrow> pystr \<Rightarrow> error + bool" where
  \<comment> \<open>the truth value of \<open>re.search(pattern, text, flags=re.IGNORECASE)\<close>\<close>
  "re_search ua pattern text =
     (case parse_re pattern (None, Eps) [] of
        None \<Rightarrow> Inl Pattern_error
      | Some r \<Rightarrow> Inr (search_from ua r None text))"

section \<open>The rule tables\<close>

definition wb :: pystr where
  \<comment> \<open>the two characters \<open>\b\<close>\<close>
  "wb = [92, 98]"

definition RED_FLAGS :: "(pystr \<times> pystr) list" where
  "RED_FLAGS =
    [(wb @ u ''(can't breathe|cannot breathe|trouble breathing|difficulty breathing|shortness of breath|blue lips|turning blue)'' @ wb,
        u ''Breathing trouble''),
     (wb @ u ''(unconscious|not waking|won't wake|passed out|fainted)'' @ wb,
        u ''Unresponsive / fainting''),
     (wb @ u ''(seizure|convulsion|fit)'' @ wb,
        u ''Seizure''),
     (wb @ u ''(face droop|slurred speech|can't speak|weakness on one side|one-sided weakness|sudden numbness)'' @ wb,
        u ''Possible stroke signs''),
     (wb @ u ''(chest pain|pressure in chest|tightness in chest)'' @ wb,
        u ''Chest pain/pressure''),
     (wb @ u ''(heavy bleeding|won't stop bleeding|bleeding won't stop)'' @ wb,
        u ''Uncontrolled bleeding''),
     (wb @ u ''(head injury|hit (his|her|their) head|concussion)'' @ wb,
        u ''Head injury''),
     (wb @ u ''(suicide|kill myself|self harm|hurt myself)'' @ wb,
        u ''Self-harm risk'')]"

section \<open>The matcher functions\<close>

text \<open>
  The loop of \<open>find_red_flags\<close> and of \<open>generate_support_suggestions\<close>: the rules in
  table order, the labels of the matching ones appended to the list built so far. An
  exception of \<open>re.search\<close> ends the loop.
\<close>

fun collect :: "(nat \<Rightarrow> bool) \<Rightarrow> (pystr \<times> pystr) list \<Rightarrow> pystr \<Rightarrow> pystr list \<Rightarrow> error + pystr list" where
  "collect ua [] text hits = Inr hits"
| "collect ua ((pattern, label) # rules) text hits =
     (case re_search ua pattern text of
        Inl e \<Rightarrow> Inl e
      | Inr m \<Rightarrow> collect ua rules text (if m then hits @ [label] else hits))"

definition find_red_flags :: "(nat \<Rightarrow> bool) \<Rightarrow> pystr \<Rightarrow> error + pystr list" where
  \<comment> \<open>\<open>sorted(set(hits))\<close>: the distinct labels in ascending order\<close>
  "find_red_flags ua text =
     (case collect ua RED_FLAGS text [] of
        Inl e \<Rightarrow> Inl e
      | Inr hits \<Rightarrow> Inr (sort (remdups hits)))"

definition SUGGESTION_RULES :: "(pystr \<times> pystr) list" where
  "SUGGESTION_RULES =
    [(wb @ u ''(confused|confusion|disoriented)'' @ wb,
        u ''Confusion can have many causes. Consider checking for recent changes (sleep, hydration, stress, new routines). If sudden or severe, contact a clinician.''),
     (wb @ u ''(fever|high temperature)'' @ wb,
        u ''Fever can be a sign of infection. If fever is high, persistent, or with worsening symptoms, contact a clinician.''),
     (wb @ u ''(fall|fell|slipped)'' @ wb,
        u ''After a fall, watch for pain, dizziness, confusion, or head injury signs. If there'' @ [0x2019]
          @ u ''s severe pain, head impact, or worsening symptoms, seek urgent care.''),
     (wb @ u ''(vomiting|throwing up)'' @ wb,
        u ''If vomiting is persistent, there are signs of dehydration, or blood appears, contact urgent care/clinician.''),
     (wb @ u ''(dehydrated|dehydration|not drinking)'' @ wb,
        u ''Encourage small, frequent sips of water if safe. If the person can'' @ [0x2019]
          @ u ''t keep fluids down or seems very weak, contact a clinician.''),
     (wb @ u ''(agitated|anxious|panic)'' @ wb,
        u ''Try a calm environment, slow breathing, reassurance, and reduce noise. If agitation is severe or unsafe, seek professional help.''),
     (wb @ u ''(pain)'' @ wb,
        u ''Track pain location, severity (0'' @ [0x2013]
          @ u ''10), start time, and what worsens/relieves it. If severe or sudden, contact a clinician.'')]"

definition generate_support_suggestions :: "(nat \<Rightarrow> bool) \<Rightarrow> pystr \<Rightarrow> error + pystr list" where
  \<comment> \<open>if no rule matched, the general advice alone\<close>
  "generate_support_suggestions ua text =
     (case collect ua SUGGESTION_RULES text [] of
        Inl e \<Rightarrow> Inl e
      | Inr suggestions \<Rightarrow>
          Inr (if suggestions = []
               then suggestions @ [u ''Consider logging what you observe (when it started, what changed, what helps). If symptoms worsen or feel concerning, contact a clinician.'']
               else suggestions))"

section \<open>The note formatter\<close>

definition py_isspace :: "nat \<Rightarrow> bool" where
  \<comment> \<open>the code points that \<open>str.strip()\<close> removes\<close>
  "py_isspace c \<longleftrightarrow>
     (9 \<le> c \<and> c \<le> 13) \<or> (28 \<le> c \<and> c \<le> 32) \<or> c = 0x85 \<or> c = 0xA0 \<or> c = 0x1680
       \<or> (0x2000 \<le> c \<and> c \<le> 0x200A) \<or> c = 0x2028 \<or> c = 0x2029 \<or> c = 0x202F
       \<or> c = 0x205F \<or> c = 0x3000"

definition strip :: "pystr \<Rightarrow> pystr" where
  "strip s = rev (dropWhile py_isspace (rev (dropWhile py_isspace s)))"

fun str_nat :: "nat \<Rightarrow> pystr" where
  "str_nat n = (if n < 10 then [48 + n] else str_nat (n div 10) @ [48 + n mod 10])"

definition str_int :: "int \<Rightarrow> pystr" where
  \<comment> \<open>\<open>str\<close> of a Python integer\<close>
  "str_int i = (if i < 0 then 45 # str_nat (nat (- i)) else str_nat (nat i))"

definition NA :: pystr where
  "NA = u ''N/A''"

text \<open>
  An argument is \<open>None\<close> or a string; both \<open>None\<close> and the empty string are false in a
  condition.
\<close>

definition or_NA :: "pystr option \<Rightarrow> pystr" where
  \<comment> \<open>\<open>x or "N/A"\<close>\<close>
  "or_NA x = (case x of None \<Rightarrow> NA | Some s \<Rightarrow> if s = [] then NA else s)"

definition strip_or_NA :: "pystr option \<Rightarrow> pystr" where
  \<comment> \<open>\<open>x.strip() if x else "N/A"\<close>\<close>
  "strip_or_NA x = (case x of None \<Rightarrow> NA | Some s \<Rightarrow> if s = [] then NA else strip s)"

definition nl :: pystr where
  "nl = [10]"

text \<open>
  The time stamp \<open>now\<close> is what \<open>datetime.now().strftime("%Y-%m-%d %H:%M")\<close> returned;
  the clock is an input of the model.
\<close>

definition format_log_entry ::
  "pystr \<Rightarrow> pystr option \<Rightarrow> pystr option \<Rightarrow> pystr option \<Rightarrow> int \<Rightarrow> pystr option \<Rightarrow> pystr" where
  "format_log_entry now person_name relationship concern_text severity notes =
     u ''## Care Log Entry ('' @ now @ u '')'' @ nl
     @ nl
     @ u ''**Person:** '' @ or_NA person_name @ u ''  '' @ nl
     @ u ''**Relationship:** '' @ or_NA relationship @ u ''  '' @ nl
     @ u ''**Severity (caregiver-rated):** '' @ str_int severity @ u ''/10  '' @ nl
     @ nl
     @ u ''### What I observed'' @ nl
     @ strip_or_NA concern_text @ nl
     @ nl
     @ u ''### Extra notes'' @ nl
     @ strip_or_NA notes @ nl"

section \<open>Notions used in the statements\<close>

text \<open>
  An expression of the fragment matches finitely many token sequences: a token is a
  literal (\<open>Some p\<close>) or a word boundary (\<open>None\<close>). A token sequence is matched from a
  position deterministically.
\<close>

fun tokens :: "regex \<Rightarrow> nat option list list" where
  "tokens Eps = [[]]"
| "tokens (Lit p) = [[Some p]]"
| "tokens WordB = [[None]]"
| "tokens (Cat r1 r2) = concat (map (\<lambda>x. map (\<lambda>y. x @ y) (tokens r2)) (tokens r1))"
| "tokens (Alt r1 r2) = tokens r1 @ tokens r2"

fun match_tokens :: "(nat \<Rightarrow> bool) \<Rightarrow> nat option list \<Rightarrow> pos \<Rightarrow> pos option" where
  "match_tokens ua [] s = Some s"
| "match_tokens ua (None # ts) s = (if at_boundary ua s then match_tokens ua ts s else None)"
| "match_tokens ua (Some p # ts) (b, []) = None"
| "match_tokens ua (Some p # ts) (b, c # cs) =
     (if lit_match p c then match_tokens ua ts (Some c, cs) else None)"

text \<open>The phrases of a pattern: the literal parts of its token sequences.\<close>

definition phrases :: "pystr \<Rightarrow> pystr list" where
  "phrases pattern =
     (case parse_re pattern (None, Eps) [] of
        None \<Rightarrow> []
      | Some r \<Rightarrow> map (List.map_filter id) (tokens r))"

definition red_flag_phrases :: "pystr list" where
  "red_flag_phrases = concat (map (\<lambda>rule. phrases (fst rule)) RED_FLAGS)"

text \<open>
  \<open>ci_equal w m\<close>: the piece \<open>m\<close> of the text is the phrase \<open>w\<close> up to the case-insensitive
  comparison of literals; \<open>contains_ci w text\<close>: such a piece occurs somewhere in the text.
\<close>

definition ci_equal :: "pystr \<Rightarrow> pystr \<Rightarrow> bool" where
  "ci_equal w m \<longleftrightarrow> list_all2 lit_match w m"

fun starts_with_ci :: "pystr \<Rightarrow> pystr \<Rightarrow> bool" where
  "starts_with_ci [] text \<longleftrightarrow> True"
| "starts_with_ci (p # ps) [] \<longleftrightarrow> False"
| "starts_with_ci (p # ps) (c # cs) \<longleftrightarrow> lit_match p c \<and> starts_with_ci ps cs"

fun contains_ci :: "pystr \<Rightarrow> pystr \<Rightarrow> bool" where
  "contains_ci w [] \<longleftrightarrow> starts_with_ci w []"
| "contains_ci w (c # cs) \<longleftrightarrow> starts_with_ci w (c # cs) \<or> contains_ci w cs"

text \<open>The same without case folding: \<open>w in text\<close> of Python.\<close>

fun starts_with :: "pystr \<Rightarrow> pystr \<Rightarrow> bool" where
  "starts_with [] text \<longleftrightarrow> True"
| "starts_with (p # ps) [] \<longleftrightarrow> False"
| "starts_with (p # ps) (c # cs) \<longleftrightarrow> p = c \<and> starts_with ps cs"

fun contains :: "pystr \<Rightarrow> pystr \<Rightarrow> bool" where
  "contains w [] \<longleftrightarrow> starts_with w []"
| "contains w (c # cs) \<longleftrightarrow> starts_with w (c # cs) \<or> contains w cs"

definition lastopt :: "pystr \<Rightarrow> nat option" where
  "lastopt xs = (if xs = [] then None else Some (last xs))"

text \<open>A rule matches a text when \<open>re.search\<close> with its pattern finds a match.\<close>

definition rule_matches :: "(nat \<Rightarrow> bool) \<Rightarrow> pystr \<Rightarrow> pystr \<times> pystr \<Rightarrow> bool" where
  "rule_matches ua text rule \<longleftrightarrow> re_search ua (fst rule) text = Inr True"

text \<open>Two strings are case variants when they differ in the case of ASCII letters only.\<close>

definition ascii_lower :: "nat \<Rightarrow> nat" where
  "ascii_lower c = (if ascii_upper_letter c then c + 32 else c)"

definition case_variant :: "pystr \<Rightarrow> pystr \<Rightarrow> bool" where
  "case_variant s t \<longleftrightarrow> map ascii_lower s = map ascii_lower t"

text \<open>
  The table without any non-ASCII alphanumeric, for the closed instances below; their
  texts are ASCII, where no table is consulted.
\<close>

definition ascii_only :: "nat \<Rightarrow> bool" where
  "ascii_only c \<longleftrightarrow> False"



declare str_nat.simps [simp del]

section \<open>Matching as token sequences\<close>

lemmas eval_defs = wb_def u_def unsupported_def is_word_def lit_match_def sre_lower_def
  ignorecase_fixes_def at_boundary_def ascii_upper_letter_def ascii_lower_letter_def ascii_digit_def

lemma match_tokens_append:
  "match_tokens ua (x @ y) s = (case match_tokens ua x s of None \<Rightarrow> None | Some s' \<Rightarrow> match_tokens ua y s')"
  by (induction ua x s rule: match_tokens.induct) auto

lemma run_tokens:
  "set (run ua r s) = {s'. \<exists>ts\<in>set (tokens r). match_tokens ua ts s = Some s'}"
proof (induction r arbitrary: s)
  case Eps
  show ?case by auto
next
  case (Lit p)
  show ?case by (cases s; cases "snd s") auto
next
  case WordB
  show ?case by auto
next
  case (Cat r1 r2)
  show ?case
    by (auto simp: Cat match_tokens_append split: option.splits) force
next
  case (Alt r1 r2)
  then show ?case by auto
qed

lemma run_nonempty:
  "run ua r s \<noteq> [] \<longleftrightarrow> (\<exists>ts\<in>set (tokens r). match_tokens ua ts s \<noteq> None)"
proof -
  have "run ua r s \<noteq> [] \<longleftrightarrow> set (run ua r s) \<noteq> {}" by simp
  also have "\<dots> \<longleftrightarrow> (\<exists>ts\<in>set (tokens r). match_tokens ua ts s \<noteq> None)"
    unfolding run_tokens by auto
  finally show ?thesis .
qed

lemma lastopt_snoc: "lastopt (pfx @ [c]) = Some c"
  by (simp add: lastopt_def)

lemma search_from_splits:
  "search_from ua r (lastopt pfx) text \<longleftrightarrow>
     (\<exists>mid rest. text = mid @ rest \<and> run ua r (lastopt (pfx @ mid), rest) \<noteq> [])"
proof (induction "text" arbitrary: pfx)
  case Nil
  show ?case by simp
next
  case (Cons c cs)
  have "search_from ua r (lastopt pfx) (c # cs) \<longleftrightarrow>
      run ua r (lastopt pfx, c # cs) \<noteq> [] \<or> search_from ua r (lastopt (pfx @ [c])) cs"
    by (simp add: lastopt_snoc)
  also have "\<dots> \<longleftrightarrow> run ua r (lastopt pfx, c # cs) \<noteq> []
      \<or> (\<exists>mid rest. cs = mid @ rest \<and> run ua r (lastopt ((pfx @ [c]) @ mid), rest) \<noteq> [])"
    unfolding Cons.IH ..
  also have "\<dots> \<longleftrightarrow> (\<exists>mid rest. c # cs = mid @ rest \<and> run ua r (lastopt (pfx @ mid), rest) \<noteq> [])"
    (is "?L \<longleftrightarrow> ?R")
  proof
    assume ?L
    then show ?R
    proof
      assume "run ua r (lastopt pfx, c # cs) \<noteq> []"
      then have "c # cs = [] @ (c # cs) \<and> run ua r (lastopt (pfx @ []), c # cs) \<noteq> []" by simp
      then show ?R by blast
    next
      assume "\<exists>mid rest. cs = mid @ rest \<and> run ua r (lastopt ((pfx @ [c]) @ mid), rest) \<noteq> []"
      then obtain mid rest where "cs = mid @ rest" "run ua r (lastopt ((pfx @ [c]) @ mid), rest) \<noteq> []"
        by blast
      then have "c # cs = (c # mid) @ rest \<and> run ua r (lastopt (pfx @ (c # mid)), rest) \<noteq> []" by simp
      then show ?R by blast
    qed
  next
    assume ?R
    then obtain mid rest where m: "c # cs = mid @ rest" "run ua r (lastopt (pfx @ mid), rest) \<noteq> []"
      by blast
    show ?L
    proof (cases mid)
      case Nil
      with m show ?thesis by simp
    next
      case (Cons d ds)
      with m have "cs = ds @ rest" "run ua r (lastopt ((pfx @ [c]) @ ds), rest) \<noteq> []" by auto
      then show ?thesis by blast
    qed
  qed
  finally show ?case .
qed

lemma search_from_None:
  "search_from ua r None text \<longleftrightarrow>
     (\<exists>pfx rest. text = pfx @ rest \<and> run ua r (lastopt pfx, rest) \<noteq> [])"
  using search_from_splits [of ua r "[]" "text"] by (simp add: lastopt_def)


lemma match_literals_Some:
  "match_tokens ua (map Some w) (b, rest) = Some (b', rest') \<longleftrightarrow>
     (\<exists>m. rest = m @ rest' \<and> ci_equal w m \<and> b' = (if m = [] then b else Some (last m)))"
proof (induction w arbitrary: b rest)
  case Nil
  show ?case by (auto simp: ci_equal_def)
next
  case (Cons p w)
  show ?case
  proof (cases rest)
    case Nil
    then show ?thesis by (simp add: ci_equal_def)
  next
    case (Cons c cs)
    show ?thesis (is "?L \<longleftrightarrow> ?R")
    proof
      assume ?L
      with Cons have lm: "lit_match p c" and "match_tokens ua (map Some w) (Some c, cs) = Some (b', rest')"
        by (auto split: if_splits)
      then obtain m where "cs = m @ rest'" "ci_equal w m" "b' = (if m = [] then Some c else Some (last m))"
        using Cons.IH by blast
      with lm Cons have "rest = (c # m) @ rest' \<and> ci_equal (p # w) (c # m)
          \<and> b' = (if c # m = [] then b else Some (last (c # m)))"
        by (simp add: ci_equal_def)
      then show ?R by blast
    next
      assume ?R
      then obtain m where m: "rest = m @ rest'" "ci_equal (p # w) m"
          "b' = (if m = [] then b else Some (last m))" by blast
      from m(2) obtain d ds where mm: "m = d # ds" "lit_match p d" "ci_equal w ds"
        by (auto simp: ci_equal_def list_all2_Cons1)
      with m Cons have "d = c" "cs = ds @ rest'" "b' = (if ds = [] then Some c else Some (last ds))"
        by auto
      with mm have "match_tokens ua (map Some w) (Some c, cs) = Some (b', rest')"
        using Cons.IH by blast
      with mm \<open>d = c\<close> Cons show ?L by simp
    qed
  qed
qed


lemma lastopt_append: "lastopt (pfx @ m) = (if m = [] then lastopt pfx else Some (last m))"
  by (simp add: lastopt_def)

lemma bounded_phrase_match:
  "match_tokens ua (None # map Some w @ [None]) (b, rest) \<noteq> None \<longleftrightarrow>
     at_boundary ua (b, rest) \<and>
     (\<exists>m post. rest = m @ post \<and> ci_equal w m
        \<and> at_boundary ua (if m = [] then b else Some (last m), post))"
  (is "?L \<longleftrightarrow> ?R")
proof
  assume ?L
  then have bd: "at_boundary ua (b, rest)"
    and "match_tokens ua (map Some w @ [None]) (b, rest) \<noteq> None"
    by (auto split: if_splits)
  then obtain b1 r1 where m1: "match_tokens ua (map Some w) (b, rest) = Some (b1, r1)"
    and e: "at_boundary ua (b1, r1)"
    by (auto simp: match_tokens_append split: option.splits if_splits)
  from m1 obtain m where "rest = m @ r1" "ci_equal w m" "b1 = (if m = [] then b else Some (last m))"
    unfolding match_literals_Some by blast
  with bd e show ?R by blast
next
  assume ?R
  then obtain m post where bd: "at_boundary ua (b, rest)" and m: "rest = m @ post" "ci_equal w m"
    and e: "at_boundary ua (if m = [] then b else Some (last m), post)" by blast
  from m have "match_tokens ua (map Some w) (b, rest) = Some (if m = [] then b else Some (last m), post)"
    unfolding match_literals_Some by blast
  with bd e show ?L by (simp add: match_tokens_append)
qed

lemma search_bounded_phrases:
  assumes "tokens r = map (\<lambda>w. None # map Some w @ [None]) ws"
  shows "search_from ua r None text \<longleftrightarrow>
     (\<exists>w\<in>set ws. \<exists>pfx m post. text = pfx @ m @ post \<and> ci_equal w m
        \<and> at_boundary ua (lastopt pfx, m @ post) \<and> at_boundary ua (lastopt (pfx @ m), post))"
  (is "?L \<longleftrightarrow> ?R")
proof
  assume ?L
  then obtain pfx rest where t: "text = pfx @ rest" and "run ua r (lastopt pfx, rest) \<noteq> []"
    unfolding search_from_None by blast
  then obtain w where w: "w \<in> set ws"
    and "match_tokens ua (None # map Some w @ [None]) (lastopt pfx, rest) \<noteq> None"
    unfolding run_nonempty assms by auto
  then obtain m post where "at_boundary ua (lastopt pfx, rest)" "rest = m @ post" "ci_equal w m"
    "at_boundary ua (if m = [] then lastopt pfx else Some (last m), post)"
    unfolding bounded_phrase_match by blast
  with t have "text = pfx @ m @ post \<and> ci_equal w m
        \<and> at_boundary ua (lastopt pfx, m @ post) \<and> at_boundary ua (lastopt (pfx @ m), post)"
    by (simp add: lastopt_append)
  with w show ?R by blast
next
  assume ?R
  then obtain w pfx m post where w: "w \<in> set ws" and t: "text = pfx @ m @ post" and c: "ci_equal w m"
    and b1: "at_boundary ua (lastopt pfx, m @ post)" and b2: "at_boundary ua (lastopt (pfx @ m), post)"
    by blast
  from b2 have "at_boundary ua (if m = [] then lastopt pfx else Some (last m), post)"
    by (simp add: lastopt_append)
  with c have "\<exists>m' post'. m @ post = m' @ post' \<and> ci_equal w m'
      \<and> at_boundary ua (if m' = [] then lastopt pfx else Some (last m'), post')"
    by blast
  with b1 have "match_tokens ua (None # map Some w @ [None]) (lastopt pfx, m @ post) \<noteq> None"
    unfolding bounded_phrase_match by blast
  moreover from w have "None # map Some w @ [None] \<in> set (map (\<lambda>w. None # map Some w @ [None]) ws)"
    by auto
  ultimately have "run ua r (lastopt pfx, m @ post) \<noteq> []"
    unfolding run_nonempty assms by blast
  with t show ?L unfolding search_from_None by blast
qed

section \<open>Both tables are in the fragment\<close>

text \<open>
  Every pattern parses, and it is \<open>\b\<close>, one of the phrases of the pattern, \<open>\b\<close>.
\<close>

lemma red_flags_shape:
  "list_all (\<lambda>rule. case parse_re (fst rule) (None, Eps) [] of None \<Rightarrow> False
       | Some r \<Rightarrow> tokens r = map (\<lambda>w. None # map Some w @ [None]) (phrases (fst rule))) RED_FLAGS"
  by (simp add: RED_FLAGS_def phrases_def eval_defs List.map_filter_def)

lemma suggestion_rules_shape:
  "list_all (\<lambda>rule. case parse_re (fst rule) (None, Eps) [] of None \<Rightarrow> False
       | Some r \<Rightarrow> tokens r = map (\<lambda>w. None # map Some w @ [None]) (phrases (fst rule))) SUGGESTION_RULES"
  by (simp add: SUGGESTION_RULES_def phrases_def eval_defs List.map_filter_def)

lemma shape_parses:
  "list_all (\<lambda>rule. case parse_re (fst rule) (None, Eps) [] of None \<Rightarrow> False
       | Some r \<Rightarrow> tokens r = map (\<lambda>w. None # map Some w @ [None]) (phrases (fst rule))) rules \<Longrightarrow>
   list_all (\<lambda>rule. parse_re (fst rule) (None, Eps) [] \<noteq> None) rules"
  by (induction rules) (auto split: option.splits)

section \<open>The loop over the rules\<close>

lemma re_search_parsed:
  "parse_re pattern (None, Eps) [] = Some r \<Longrightarrow> re_search ua pattern text = Inr (search_from ua r None text)"
  by (simp add: re_search_def)

lemma collect_parsed:
  "list_all (\<lambda>rule. parse_re (fst rule) (None, Eps) [] \<noteq> None) rules \<Longrightarrow>
   collect ua rules text hits = Inr (hits @ map snd (filter (rule_matches ua text) rules))"
proof (induction rules arbitrary: hits)
  case Nil
  show ?case by simp
next
  case (Cons rule rules)
  obtain pattern label where rule: "rule = (pattern, label)" by (cases rule)
  from Cons.prems rule obtain r where r: "parse_re pattern (None, Eps) [] = Some r" by auto
  from Cons.prems have rest: "list_all (\<lambda>rule. parse_re (fst rule) (None, Eps) [] \<noteq> None) rules"
    by simp
  show ?case
    unfolding rule
    by (simp add: re_search_parsed [OF r] Cons.IH [OF rest] rule_matches_def)
qed

lemma is_word_variant: "ascii_lower c = ascii_lower d \<Longrightarrow> is_word ua c = is_word ua d"
  by (auto simp: ascii_lower_def is_word_def ascii_upper_letter_def ascii_lower_letter_def
      ascii_digit_def split: if_splits)

lemma sre_lower_variant: "ascii_lower c = ascii_lower d \<Longrightarrow> sre_lower c = sre_lower d"
  by (auto simp: ascii_lower_def sre_lower_def ascii_upper_letter_def split: if_splits)

lemma lit_match_variant: "ascii_lower c = ascii_lower d \<Longrightarrow> lit_match p c = lit_match p d"
proof (cases "ascii_upper_letter p \<or> ascii_lower_letter p")
  case True
  assume "ascii_lower c = ascii_lower d"
  then have "sre_lower c = sre_lower d" by (rule sre_lower_variant)
  with True show ?thesis by (simp add: lit_match_def)
next
  case False
  assume "ascii_lower c = ascii_lower d"
  with False show ?thesis
    by (auto simp: lit_match_def ascii_lower_def ascii_upper_letter_def ascii_lower_letter_def
        split: if_splits)
qed

lemma at_boundary_variant:
  assumes "map_option ascii_lower b = map_option ascii_lower b'" "map ascii_lower s = map ascii_lower t"
  shows "at_boundary ua (b, s) = at_boundary ua (b', t)"
proof -
  have "(case b of None \<Rightarrow> False | Some x \<Rightarrow> is_word ua x) = (case b' of None \<Rightarrow> False | Some x \<Rightarrow> is_word ua x)"
    using assms(1) by (cases b; cases b') (auto dest: is_word_variant)
  moreover have "(case s of [] \<Rightarrow> False | c # cs \<Rightarrow> is_word ua c) = (case t of [] \<Rightarrow> False | c # cs \<Rightarrow> is_word ua c)"
    using assms(2) by (cases s; cases t) (auto dest: is_word_variant)
  ultimately show ?thesis by (simp add: at_boundary_def)
qed

lemma match_tokens_variant:
  "map_option ascii_lower b = map_option ascii_lower b' \<Longrightarrow> map ascii_lower s = map ascii_lower t \<Longrightarrow>
   (match_tokens ua ts (b, s) \<noteq> None) = (match_tokens ua ts (b', t) \<noteq> None)"
proof (induction ts arbitrary: b b' s t)
  case Nil
  show ?case by simp
next
  case (Cons tok ts)
  show ?case
  proof (cases tok)
    case None
    with Cons.IH [OF Cons.prems] at_boundary_variant [OF Cons.prems, of ua] show ?thesis by simp
  next
    case (Some p)
    show ?thesis
    proof (cases s)
      case Nil
      with Cons.prems Some show ?thesis by simp
    next
      case (Cons c cs)
      with Cons.prems obtain d ds where t: "t = d # ds" "ascii_lower c = ascii_lower d"
        "map ascii_lower cs = map ascii_lower ds" by (cases t) auto
      have "(match_tokens ua ts (Some c, cs) \<noteq> None) = (match_tokens ua ts (Some d, ds) \<noteq> None)"
        by (rule Cons.IH) (simp_all add: t)
      with Some Cons t lit_match_variant [OF t(2), of p] show ?thesis by simp
    qed
  qed
qed

lemma run_variant:
  assumes "map_option ascii_lower b = map_option ascii_lower b'" "map ascii_lower s = map ascii_lower t"
  shows "(run ua r (b, s) \<noteq> []) = (run ua r (b', t) \<noteq> [])"
  unfolding run_nonempty using match_tokens_variant [OF assms, of ua] by blast

lemma search_from_variant:
  "map_option ascii_lower b = map_option ascii_lower b' \<Longrightarrow> map ascii_lower s = map ascii_lower t \<Longrightarrow>
   search_from ua r b s = search_from ua r b' t"
proof (induction s arbitrary: b b' t)
  case Nil
  then have "t = []" by simp
  with run_variant [OF Nil.prems, of ua r] show ?case by simp
next
  case (Cons c cs)
  then obtain d ds where t: "t = d # ds" "ascii_lower c = ascii_lower d"
    "map ascii_lower cs = map ascii_lower ds" by (cases t) auto
  have "search_from ua r (Some c) cs = search_from ua r (Some d) ds"
    by (rule Cons.IH) (simp_all add: t)
  with run_variant [OF Cons.prems, of ua r] show ?case by (simp add: t)
qed

lemma re_search_variant:
  assumes "case_variant s t"
  shows "re_search ua pattern s = re_search ua pattern t"
proof -
  from assms have "map ascii_lower s = map ascii_lower t" by (simp add: case_variant_def)
  then have "search_from ua r None s = search_from ua r None t" for r
    by (intro search_from_variant) simp_all
  then show ?thesis by (simp add: re_search_def split: option.splits)
qed

lemma collect_variant: "case_variant s t \<Longrightarrow> collect ua rules s hits = collect ua rules t hits"
  by (induction ua rules s hits rule: collect.induct) (auto simp: re_search_variant split: sum.splits)

lemma starts_with_ci_iff: "starts_with_ci w t \<longleftrightarrow> (\<exists>m post. t = m @ post \<and> ci_equal w m)"
proof (induction w t rule: starts_with_ci.induct)
  case (1 t)
  show ?case by (simp add: ci_equal_def)
next
  case (2 p ps)
  show ?case by (simp add: ci_equal_def)
next
  case (3 p ps c cs)
  show ?case
    by (auto simp: 3 ci_equal_def list_all2_Cons1 Cons_eq_append_conv)
qed

lemma contains_ci_iff: "contains_ci w t \<longleftrightarrow> (\<exists>pfx m post. t = pfx @ m @ post \<and> ci_equal w m)"
proof (induction t)
  case Nil
  show ?case by (auto simp: starts_with_ci_iff)
next
  case (Cons c cs)
  show ?case (is "?L \<longleftrightarrow> ?R")
  proof
    assume ?L
    then consider "starts_with_ci w (c # cs)" | "contains_ci w cs" by auto
    then show ?R
    proof cases
      case 1
      then obtain m post where "c # cs = [] @ m @ post \<and> ci_equal w m"
        unfolding starts_with_ci_iff by auto
      then show ?thesis by blast
    next
      case 2
      then obtain pfx m post where "cs = pfx @ m @ post" "ci_equal w m"
        unfolding Cons.IH by blast
      then have "c # cs = (c # pfx) @ m @ post \<and> ci_equal w m" by simp
      then show ?thesis by blast
    qed
  next
    assume ?R
    then obtain pfx m post where m: "c # cs = pfx @ m @ post" "ci_equal w m" by blast
    show ?L
    proof (cases pfx)
      case Nil
      with m have "starts_with_ci w (c # cs)" unfolding starts_with_ci_iff by auto
      then show ?thesis by simp
    next
      case (Cons d ds)
      with m have "cs = ds @ m @ post" by simp
      with m(2) have "contains_ci w cs" unfolding Cons.IH by blast
      then show ?thesis by simp
    qed
  qed
qed

lemma find_red_flags_eq:
  "find_red_flags ua text = Inr (sort (remdups (map snd (filter (rule_matches ua text) RED_FLAGS))))"
  by (simp add: find_red_flags_def collect_parsed [OF shape_parses [OF red_flags_shape]])

lemma suggestions_eq:
  "generate_support_suggestions ua text =
     Inr (if filter (rule_matches ua text) SUGGESTION_RULES = []
          then [u ''Consider logging what you observe (when it started, what changed, what helps). If symptoms worsen or feel concerning, contact a clinician.'']
          else map snd (filter (rule_matches ua text) SUGGESTION_RULES))"
  by (simp add: generate_support_suggestions_def
      collect_parsed [OF shape_parses [OF suggestion_rules_shape]])

section \<open>The phrases of the red-flag rules\<close>

lemma red_flag_phrases_eq:
  "map (\<lambda>rule. (phrases (fst rule), snd rule)) RED_FLAGS =
    [([u ''can't breathe'', u ''cannot breathe'', u ''trouble breathing'', u ''difficulty breathing'',
       u ''shortness of breath'', u ''blue lips'', u ''turning blue''], u ''Breathing trouble''),
     ([u ''unconscious'', u ''not waking'', u ''won't wake'', u ''passed out'', u ''fainted''],
       u ''Unresponsive / fainting''),
     ([u ''seizure'', u ''convulsion'', u ''fit''], u ''Seizure''),
     ([u ''face droop'', u ''slurred speech'', u ''can't speak'', u ''weakness on one side'',
       u ''one-sided weakness'', u ''sudden numbness''], u ''Possible stroke signs''),
     ([u ''chest pain'', u ''pressure in chest'', u ''tightness in chest''], u ''Chest pain/pressure''),
     ([u ''heavy bleeding'', u ''won't stop bleeding'', u ''bleeding won't stop''],
       u ''Uncontrolled bleeding''),
     ([u ''head injury'', u ''hit his head'', u ''hit her head'', u ''hit their head'', u ''concussion''],
       u ''Head injury''),
     ([u ''suicide'', u ''kill myself'', u ''self harm'', u ''hurt myself''], u ''Self-harm risk'')]"
  by (simp add: RED_FLAGS_def phrases_def eval_defs List.map_filter_def)

lemma rule_matches_phrase:
  assumes "list_all (\<lambda>rule. case parse_re (fst rule) (None, Eps) [] of None \<Rightarrow> False
       | Some r \<Rightarrow> tokens r = map (\<lambda>w. None # map Some w @ [None]) (phrases (fst rule))) rules"
    and "rule \<in> set rules"
  shows "rule_matches ua text rule \<longleftrightarrow>
     (\<exists>w\<in>set (phrases (fst rule)). \<exists>pfx m post. text = pfx @ m @ post \<and> ci_equal w m
        \<and> at_boundary ua (lastopt pfx, m @ post) \<and> at_boundary ua (lastopt (pfx @ m), post))"
proof -
  from assms obtain r where r: "parse_re (fst rule) (None, Eps) [] = Some r"
    and t: "tokens r = map (\<lambda>w. None # map Some w @ [None]) (phrases (fst rule))"
    by (auto simp: list_all_iff split: option.splits)
  show ?thesis
    unfolding rule_matches_def re_search_parsed [OF r] search_bounded_phrases [OF t, symmetric]
    by simp
qed

lemma red_flag_phrases_list:
  "red_flag_phrases =
     [u ''can't breathe'', u ''cannot breathe'', u ''trouble breathing'', u ''difficulty breathing'',
      u ''shortness of breath'', u ''blue lips'', u ''turning blue'',
      u ''unconscious'', u ''not waking'', u ''won't wake'', u ''passed out'', u ''fainted'',
      u ''seizure'', u ''convulsion'', u ''fit'',
      u ''face droop'', u ''slurred speech'', u ''can't speak'', u ''weakness on one side'',
      u ''one-sided weakness'', u ''sudden numbness'',
      u ''chest pain'', u ''pressure in chest'', u ''tightness in chest'',
      u ''heavy bleeding'', u ''won't stop bleeding'', u ''bleeding won't stop'',
      u ''head injury'', u ''hit his head'', u ''hit her head'', u ''hit their head'', u ''concussion'',
      u ''suicide'', u ''kill myself'', u ''self harm'', u ''hurt myself'']"
proof -
  have "red_flag_phrases = concat (map fst (map (\<lambda>rule. (phrases (fst rule), snd rule)) RED_FLAGS))"
    by (simp add: red_flag_phrases_def comp_def)
  then show ?thesis unfolding red_flag_phrases_eq by simp
qed

section \<open>Red flags\<close>

text \<open>
  C3. For the input "sudden chest pain and trouble breathing", \<open>find_red_flags\<close> returns
  exactly the two labels "Breathing trouble" and "Chest pain/pressure", in ascending
  order.
\<close>

theorem find_red_flags_chest_pain_breathing:
  "find_red_flags ua (u ''sudden chest pain and trouble breathing'')
     = Inr [u ''Breathing trouble'', u ''Chest pain/pressure'']"
  by (simp add: find_red_flags_def RED_FLAGS_def re_search_def eval_defs)

text \<open>
  C4. For every input, \<open>find_red_flags\<close> returns a list without duplicates, in ascending
  order, whose elements are exactly the labels of the red-flag rules whose pattern
  matched the input.
\<close>

theorem find_red_flags_sorted_distinct_matched:
  "\<exists>hits. find_red_flags ua text = Inr hits \<and> distinct hits \<and> sorted hits
     \<and> set hits = {label. \<exists>pattern. (pattern, label) \<in> set RED_FLAGS
                          \<and> re_search ua pattern text = Inr True}"
proof -
  let ?hits = "sort (remdups (map snd (filter (rule_matches ua text) RED_FLAGS)))"
  have "set ?hits = {label. \<exists>pattern. (pattern, label) \<in> set RED_FLAGS
                          \<and> re_search ua pattern text = Inr True}"
    by (force simp: rule_matches_def)
  moreover have "distinct ?hits" "sorted ?hits" by simp_all
  ultimately show ?thesis using find_red_flags_eq [of ua "text"] by blast
qed

text \<open>
  C5. \<open>find_red_flags\<close> returns a list for every input and raises for none. For the
  empty string, and for every string (ASCII or not) in which none of the red-flag
  phrases occurs, the list is empty. A phrase occurs in a text when a piece of the text
  equals it up to the case-insensitive comparison of \<open>re.IGNORECASE\<close>.
\<close>

theorem find_red_flags_total_and_empty:
  "(\<exists>hits. find_red_flags ua text = Inr hits)
   \<and> find_red_flags ua [] = Inr []
   \<and> (\<not> (\<exists>w\<in>set red_flag_phrases. contains_ci w text) \<longrightarrow> find_red_flags ua text = Inr [])"
proof -
  have none: "filter (rule_matches ua t) RED_FLAGS = []"
    if nophrase: "\<not> (\<exists>w\<in>set red_flag_phrases. contains_ci w t)" for t
  proof -
    have "\<not> rule_matches ua t rule" if rule: "rule \<in> set RED_FLAGS" for rule
    proof
      assume "rule_matches ua t rule"
      then obtain w pfx m post where "w \<in> set (phrases (fst rule))" "t = pfx @ m @ post" "ci_equal w m"
        unfolding rule_matches_phrase [OF red_flags_shape rule] by blast
      then have "w \<in> set red_flag_phrases" "contains_ci w t"
        using rule by (auto simp: red_flag_phrases_def contains_ci_iff)
      with nophrase show False by blast
    qed
    then show ?thesis by (simp add: filter_empty_conv)
  qed
  have "\<not> contains_ci w []" if "w \<in> set red_flag_phrases" for w
    using that unfolding red_flag_phrases_list by (auto simp: u_def)
  then have "filter (rule_matches ua []) RED_FLAGS = []" by (intro none) blast
  with none show ?thesis by (simp add: find_red_flags_eq)
qed

text \<open>An instance of C5 on a text without any ASCII character.\<close>

theorem find_red_flags_total_and_empty_witness:
  "\<not> (\<exists>w\<in>set red_flag_phrases. contains_ci w [0x4F60, 0x597D, 0x21])
   \<and> find_red_flags ascii_only [0x4F60, 0x597D, 0x21] = Inr []"
proof -
  have h: "\<not> (\<exists>w\<in>set red_flag_phrases. contains_ci w [0x4F60, 0x597D, 0x21])"
    unfolding red_flag_phrases_list by (simp add: eval_defs)
  with find_red_flags_total_and_empty [of ascii_only "[0x4F60, 0x597D, 0x21]"] show ?thesis by blast
qed

text \<open>
  C8. Matching respects word boundaries. The inputs "he breathed" and "shortness of
  breathed" raise no flag. In general a label is returned only if a phrase of its rule
  occurs in the text as a piece \<open>m\<close> with a word boundary at both of its ends: of the
  character before \<open>m\<close> and the first character of \<open>m\<close> exactly one is a word character,
  and likewise of the last character of \<open>m\<close> and the character after it. So a phrase
  that is continued by further letters, as "breath" in "breathed", is no match.
\<close>

theorem word_boundaries_respected:
  "find_red_flags ua (u ''he breathed'') = Inr []
   \<and> find_red_flags ua (u ''shortness of breathed'') = Inr []
   \<and> (\<forall>text hits label. find_red_flags ua text = Inr hits \<and> label \<in> set hits \<longrightarrow>
        (\<exists>rule\<in>set RED_FLAGS. snd rule = label \<and>
           (\<exists>w\<in>set (phrases (fst rule)). \<exists>pfx m post. text = pfx @ m @ post \<and> ci_equal w m
              \<and> at_boundary ua (lastopt pfx, m @ post) \<and> at_boundary ua (lastopt (pfx @ m), post))))"
proof (intro conjI allI impI)
  show "find_red_flags ua (u ''he breathed'') = Inr []"
    by (simp add: find_red_flags_def RED_FLAGS_def re_search_def eval_defs)
  show "find_red_flags ua (u ''shortness of breathed'') = Inr []"
    by (simp add: find_red_flags_def RED_FLAGS_def re_search_def eval_defs)
next
  fix inp hits label
  assume "find_red_flags ua inp = Inr hits \<and> label \<in> set hits"
  then have "label \<in> set (map snd (filter (rule_matches ua inp) RED_FLAGS))"
    by (auto simp: find_red_flags_eq)
  then obtain rule where rule: "rule \<in> set RED_FLAGS" "snd rule = label" "rule_matches ua inp rule"
    by auto
  from rule(3) have "\<exists>w\<in>set (phrases (fst rule)). \<exists>pfx m post. inp = pfx @ m @ post \<and> ci_equal w m
      \<and> at_boundary ua (lastopt pfx, m @ post) \<and> at_boundary ua (lastopt (pfx @ m), post)"
    unfolding rule_matches_phrase [OF red_flags_shape rule(1)] .
  with rule(1,2) show "\<exists>rule\<in>set RED_FLAGS. snd rule = label \<and>
           (\<exists>w\<in>set (phrases (fst rule)). \<exists>pfx m post. inp = pfx @ m @ post \<and> ci_equal w m
              \<and> at_boundary ua (lastopt pfx, m @ post) \<and> at_boundary ua (lastopt (pfx @ m), post))"
    by blast
qed

text \<open>An instance of C8: "trouble breathing" is flagged, with the boundaries of the theorem.\<close>

theorem word_boundaries_respected_witness:
  "find_red_flags ascii_only (u ''trouble breathing'') = Inr [u ''Breathing trouble'']
   \<and> u ''Breathing trouble'' \<in> set [u ''Breathing trouble'']
   \<and> (\<exists>rule\<in>set RED_FLAGS. snd rule = u ''Breathing trouble'' \<and>
         (\<exists>w\<in>set (phrases (fst rule)). \<exists>pfx m post. u ''trouble breathing'' = pfx @ m @ post \<and> ci_equal w m
            \<and> at_boundary ascii_only (lastopt pfx, m @ post)
            \<and> at_boundary ascii_only (lastopt (pfx @ m), post)))"
proof -
  have h: "find_red_flags ascii_only (u ''trouble breathing'') = Inr [u ''Breathing trouble'']"
    by (simp add: find_red_flags_def RED_FLAGS_def re_search_def eval_defs)
  moreover have "u ''Breathing trouble'' \<in> set [u ''Breathing trouble'']" by simp
  ultimately show ?thesis
    using word_boundaries_respected [of ascii_only] by blast
qed

section \<open>Supportive suggestions\<close>

lemma fell_and_is_confused:
  "generate_support_suggestions ua (u ''fell and is confused'') =
     Inr [u ''Confusion can have many causes. Consider checking for recent changes (sleep, hydration, stress, new routines). If sudden or severe, contact a clinician.'',
          u ''After a fall, watch for pain, dizziness, confusion, or head injury signs. If there'' @ [0x2019]
            @ u ''s severe pain, head impact, or worsening symptoms, seek urgent care.'']"
  by (simp add: generate_support_suggestions_def SUGGESTION_RULES_def re_search_def eval_defs)

text \<open>
  C1 as stated fails: for "fell and is confused" the confusion-related suggestion comes
  first, so the result is not the fall-related suggestion followed by the
  confusion-related one.
\<close>

theorem fell_confused_fall_not_first:
  "generate_support_suggestions ascii_only (u ''fell and is confused'') =
     Inr [u ''Confusion can have many causes. Consider checking for recent changes (sleep, hydration, stress, new routines). If sudden or severe, contact a clinician.'',
          u ''After a fall, watch for pain, dizziness, confusion, or head injury signs. If there'' @ [0x2019]
            @ u ''s severe pain, head impact, or worsening symptoms, seek urgent care.'']
   \<and> generate_support_suggestions ascii_only (u ''fell and is confused'') \<noteq>
     Inr [u ''After a fall, watch for pain, dizziness, confusion, or head injury signs. If there'' @ [0x2019]
            @ u ''s severe pain, head impact, or worsening symptoms, seek urgent care.'',
          u ''Confusion can have many causes. Consider checking for recent changes (sleep, hydration, stress, new routines). If sudden or severe, contact a clinician.'']"
  unfolding fell_and_is_confused by (simp add: u_def)

text \<open>
  C1, amended. For the input "fell and is confused", \<open>generate_support_suggestions\<close>
  returns both the confusion-related and the fall-related suggestion, the
  confusion-related one first: the confusion rule is the first rule of the table, the
  fall rule the third, and the output keeps the order of the table.
\<close>

theorem fell_confused_confusion_first:
  "generate_support_suggestions ua (u ''fell and is confused'') =
     Inr [snd (SUGGESTION_RULES ! 0), snd (SUGGESTION_RULES ! 2)]
   \<and> snd (SUGGESTION_RULES ! 0) = u ''Confusion can have many causes. Consider checking for recent changes (sleep, hydration, stress, new routines). If sudden or severe, contact a clinician.''
   \<and> snd (SUGGESTION_RULES ! 2) = u ''After a fall, watch for pain, dizziness, confusion, or head injury signs. If there'' @ [0x2019]
            @ u ''s severe pain, head impact, or worsening symptoms, seek urgent care.''
   \<and> fst (SUGGESTION_RULES ! 0) = wb @ u ''(confused|confusion|disoriented)'' @ wb
   \<and> fst (SUGGESTION_RULES ! 2) = wb @ u ''(fall|fell|slipped)'' @ wb"
  unfolding fell_and_is_confused by (simp add: SUGGESTION_RULES_def)

lemma fallback_not_a_suggestion:
  "u ''Consider logging what you observe (when it started, what changed, what helps). If symptoms worsen or feel concerning, contact a clinician.''
     \<notin> set (map snd SUGGESTION_RULES)"
  by (simp add: SUGGESTION_RULES_def u_def)

lemma length_SUGGESTION_RULES: "length SUGGESTION_RULES = 7"
  by (simp add: SUGGESTION_RULES_def)

text \<open>
  C6. For every input that no suggestion rule matches, \<open>generate_support_suggestions\<close>
  returns a list of exactly one element, the fallback string.
\<close>

theorem no_rule_matched_fallback_only:
  "\<not> (\<exists>rule\<in>set SUGGESTION_RULES. rule_matches ua text rule) \<Longrightarrow>
   generate_support_suggestions ua text =
     Inr [u ''Consider logging what you observe (when it started, what changed, what helps). If symptoms worsen or feel concerning, contact a clinician.'']"
  by (simp add: suggestions_eq filter_empty_conv)

text \<open>An instance of C6: no suggestion rule matches "hello there".\<close>

theorem no_rule_matched_fallback_only_witness:
  "\<not> (\<exists>rule\<in>set SUGGESTION_RULES. rule_matches ascii_only (u ''hello there'') rule)
   \<and> generate_support_suggestions ascii_only (u ''hello there'') =
     Inr [u ''Consider logging what you observe (when it started, what changed, what helps). If symptoms worsen or feel concerning, contact a clinician.'']"
proof -
  have h: "\<not> (\<exists>rule\<in>set SUGGESTION_RULES. rule_matches ascii_only (u ''hello there'') rule)"
    by (simp add: SUGGESTION_RULES_def rule_matches_def re_search_def eval_defs)
  with no_rule_matched_fallback_only [OF h] show ?thesis by blast
qed

text \<open>
  C10. For every input, \<open>generate_support_suggestions\<close> returns a list that is not empty
  and has at most 7 elements, one for each matching rule of the 7 rules, or one if
  there is none; the fallback string is in the list if and only if no rule matched.
\<close>

theorem suggestions_nonempty_bounded:
  "\<exists>suggestions. generate_support_suggestions ua text = Inr suggestions
     \<and> suggestions \<noteq> [] \<and> length suggestions \<le> 7
     \<and> length suggestions = max 1 (length (filter (rule_matches ua text) SUGGESTION_RULES))
     \<and> length SUGGESTION_RULES = 7
     \<and> (u ''Consider logging what you observe (when it started, what changed, what helps). If symptoms worsen or feel concerning, contact a clinician.''
           \<in> set suggestions
         \<longleftrightarrow> \<not> (\<exists>rule\<in>set SUGGESTION_RULES. rule_matches ua text rule))"
proof (cases "filter (rule_matches ua text) SUGGESTION_RULES = []")
  case True
  then have "\<not> (\<exists>rule\<in>set SUGGESTION_RULES. rule_matches ua text rule)"
    by (simp add: filter_empty_conv)
  with True show ?thesis by (simp add: suggestions_eq length_SUGGESTION_RULES)
next
  case False
  let ?m = "filter (rule_matches ua text) SUGGESTION_RULES"
  have "length ?m \<le> length SUGGESTION_RULES" by (rule length_filter_le)
  then have len: "length (map snd ?m) \<le> 7" by (simp add: length_SUGGESTION_RULES)
  have "set (map snd ?m) \<subseteq> set (map snd SUGGESTION_RULES)" by auto
  with fallback_not_a_suggestion
  have nf: "u ''Consider logging what you observe (when it started, what changed, what helps). If symptoms worsen or feel concerning, contact a clinician.''
      \<notin> set (map snd ?m)" by blast
  from False have ex: "\<exists>rule\<in>set SUGGESTION_RULES. rule_matches ua text rule"
    by (simp add: filter_empty_conv)
  from False have "generate_support_suggestions ua text = Inr (map snd ?m)"
    by (simp add: suggestions_eq)
  moreover from False have "map snd ?m \<noteq> []" by simp
  moreover from False have "length (map snd ?m) = max 1 (length ?m)"
    by (cases ?m) simp_all
  ultimately show ?thesis using len nf ex length_SUGGESTION_RULES by blast
qed

section \<open>Case-insensitivity\<close>

text \<open>
  C7. Both matcher functions are case-insensitive: on two strings that differ only in
  the case of ASCII letters, such as "CHEST PAIN" and "chest pain", \<open>find_red_flags\<close>
  returns the same result, and so does \<open>generate_support_suggestions\<close>.
\<close>

theorem case_variants_same_result:
  "case_variant s t \<Longrightarrow>
   find_red_flags ua s = find_red_flags ua t
   \<and> generate_support_suggestions ua s = generate_support_suggestions ua t"
  by (simp add: find_red_flags_def generate_support_suggestions_def collect_variant [of s t])

text \<open>An instance of C7: "CHEST PAIN" and "chest pain".\<close>

theorem case_variants_same_result_witness:
  "case_variant (u ''CHEST PAIN'') (u ''chest pain'')
   \<and> find_red_flags ascii_only (u ''CHEST PAIN'') = find_red_flags ascii_only (u ''chest pain'')
   \<and> generate_support_suggestions ascii_only (u ''CHEST PAIN'')
       = generate_support_suggestions ascii_only (u ''chest pain'')"
proof -
  have h: "case_variant (u ''CHEST PAIN'') (u ''chest pain'')"
    by (simp add: case_variant_def ascii_lower_def ascii_upper_letter_def u_def)
  with case_variants_same_result [OF h, of ascii_only] show ?thesis by blast
qed

section \<open>Log entries\<close>


lemma str_int_5: "str_int 5 = u ''5''"
  by (simp add: str_int_def str_nat.simps u_def)

text \<open>
  C2 as stated fails: with a single space for the name, the relationship, the observed
  text and the notes, and severity 5, the entry contains no "N/A" at all. The name and
  the relationship are rendered as they are, the observed text and the notes as the
  empty string.
\<close>

theorem whitespace_only_fields_no_NA:
  "\<not> contains (u ''N/A'')
       (format_log_entry (u ''2024-01-01 10:00'') (Some (u '' '')) (Some (u '' '')) (Some (u '' '')) 5
          (Some (u '' '')))
   \<and> format_log_entry (u ''2024-01-01 10:00'') (Some (u '' '')) (Some (u '' '')) (Some (u '' '')) 5
          (Some (u '' '')) =
     u ''## Care Log Entry (2024-01-01 10:00)'' @ nl
     @ nl
     @ u ''**Person:**    '' @ nl
     @ u ''**Relationship:**    '' @ nl
     @ u ''**Severity (caregiver-rated):** 5/10  '' @ nl
     @ nl
     @ u ''### What I observed'' @ nl
     @ nl
     @ nl
     @ u ''### Extra notes'' @ nl
     @ nl"
  by (simp add: format_log_entry_def or_NA_def strip_or_NA_def strip_def py_isspace_def nl_def
      str_int_5 u_def)

text \<open>
  C2, amended. For every call of \<open>format_log_entry\<close> in which the name, the
  relationship, the observed text and the notes are each empty (or \<open>None\<close>) and the
  severity is 5, the entry has "N/A" for the name, the relationship, the observed text
  and the notes, and "5/10" for the severity.
\<close>

theorem empty_fields_render_NA:
  "person_name = None \<or> person_name = Some [] \<Longrightarrow>
   relationship = None \<or> relationship = Some [] \<Longrightarrow>
   concern_text = None \<or> concern_text = Some [] \<Longrightarrow>
   notes = None \<or> notes = Some [] \<Longrightarrow>
   format_log_entry now person_name relationship concern_text 5 notes =
     u ''## Care Log Entry ('' @ now @ u '')'' @ nl
     @ nl
     @ u ''**Person:** N/A  '' @ nl
     @ u ''**Relationship:** N/A  '' @ nl
     @ u ''**Severity (caregiver-rated):** 5/10  '' @ nl
     @ nl
     @ u ''### What I observed'' @ nl
     @ u ''N/A'' @ nl
     @ nl
     @ u ''### Extra notes'' @ nl
     @ u ''N/A'' @ nl"
  by (auto simp: format_log_entry_def or_NA_def strip_or_NA_def NA_def str_int_5 u_def)

text \<open>An instance of C2, amended, with empty strings and \<open>None\<close>.\<close>

theorem empty_fields_render_NA_witness:
  "format_log_entry (u ''2024-01-01 10:00'') (Some []) None (Some []) 5 None =
     u ''## Care Log Entry (2024-01-01 10:00)'' @ nl
     @ nl
     @ u ''**Person:** N/A  '' @ nl
     @ u ''**Relationship:** N/A  '' @ nl
     @ u ''**Severity (caregiver-rated):** 5/10  '' @ nl
     @ nl
     @ u ''### What I observed'' @ nl
     @ u ''N/A'' @ nl
     @ nl
     @ u ''### Extra notes'' @ nl
     @ u ''N/A'' @ nl"
  using empty_fields_render_NA [of "Some []" None "Some []" None "u ''2024-01-01 10:00''"]
  by (simp add: u_def)







end
